theory Spec2Isabelle
  imports Main
begin

section \<open>The terminal client of \<open>client.py\<close> as a labelled transition system\<close>

text \<open>
  \<open>client.py\<close> runs two coroutines, \<open>send_messages\<close> and \<open>receive_messages\<close>, on one
  asyncio event loop, together with a SIGINT handler \<open>require_input\<close>. They share
  \<open>connection.open\<close>, the \<open>asyncio.Lock\<close> \<open>console_lock\<close> and the \<open>asyncio.Event\<close>
  \<open>input_required\<close>. Each coroutine is modelled by a program counter naming the source
  statement it executes next; one step executes that statement. A schedule is a list of
  labels, each one letting a coroutine execute one statement or letting the environment
  (operator, peer, network) act. A label that is not enabled (a coroutine blocked in an
  \<open>await\<close>) leaves the state as it is. asyncio only switches coroutines at an
  \<open>await\<close>; the schedules of \<open>run\<close> include these and more, so what holds for every
  schedule of \<open>run\<close> holds for the program. \<open>loop_run\<close> restricts them by the one
  synchronous call that waits, \<open>input\<close>, during which the event loop stands still.
\<close>

subsection \<open>Data\<close>

datatype actor = ReceiverTask | SenderTask | SignalHandler

text \<open>What a failing call raises: \<open>websockets.ConnectionClosed\<close> with its reason, or
  anything else.\<close>

datatype failure = ConnectionClosed string | OtherFailure string

text \<open>The four terminal operations of the source: the \<open>print\<close> of line 49, the \<open>print\<close>
  of lines 38 and 51, the \<open>print\<close> of line 18 and the \<open>input\<close> of line 32 (prompt and line
  typed).\<close>

datatype term_op =
    PrintRecv string
  | PrintClosed string
  | PrintBackspaces
  | ReadLine string string

fun rendered :: "term_op \<Rightarrow> string" where
  "rendered (PrintRecv m) = ''Recv: '' @ m"
| "rendered (PrintClosed r) = ''Connection was closed: '' @ r"
| "rendered PrintBackspaces = [CHR 0x08, CHR 0x08]"
| "rendered (ReadLine p l) = p"

fun is_prompt :: "term_op \<Rightarrow> bool" where
  "is_prompt (ReadLine p l) = True"
| "is_prompt _ = False"

text \<open>Program counters: the statement of \<open>send_messages\<close> (lines 25 to 38) and of
  \<open>receive_messages\<close> (lines 44 to 53) that runs next.\<close>

datatype sender_pc =
    S_while            \<comment> \<open>line 25, \<open>while connection.open\<close>\<close>
  | S_wait             \<comment> \<open>line 27, \<open>await input_required.wait()\<close>\<close>
  | S_if_open          \<comment> \<open>line 30, \<open>if connection.open\<close>\<close>
  | S_lock             \<comment> \<open>line 31, entering \<open>async with console_lock\<close>\<close>
  | S_input            \<comment> \<open>line 32, \<open>input("Send: ")\<close>\<close>
  | S_unlock string    \<comment> \<open>line 31, leaving \<open>async with console_lock\<close>\<close>
  | S_send string      \<comment> \<open>line 34, \<open>await connection.send(rptl_message)\<close>\<close>
  | S_clear            \<comment> \<open>line 36, \<open>input_required.clear()\<close>\<close>
  | S_except string    \<comment> \<open>line 38, the handler's \<open>print\<close>\<close>
  | S_returned         \<comment> \<open>the coroutine has returned\<close>
  | S_raised string    \<comment> \<open>the coroutine has ended with an uncaught failure\<close>

datatype receiver_pc =
    R_while            \<comment> \<open>line 44, \<open>while connection.open\<close>\<close>
  | R_recv             \<comment> \<open>line 46, \<open>await connection.recv()\<close>\<close>
  | R_lock string      \<comment> \<open>line 48, entering \<open>async with console_lock\<close>\<close>
  | R_print string     \<comment> \<open>line 49, \<open>print\<close> of the message\<close>
  | R_unlock           \<comment> \<open>line 48, leaving \<open>async with console_lock\<close>\<close>
  | R_except string    \<comment> \<open>line 51, the handler's \<open>print\<close>\<close>
  | R_require_input    \<comment> \<open>line 53, \<open>require_input(input_required)\<close>\<close>
  | R_returned         \<comment> \<open>the coroutine has returned\<close>
  | R_raised string    \<comment> \<open>the coroutine has ended with an uncaught failure\<close>

text \<open>
  The state. \<open>conn_open\<close>, \<open>close_reason\<close>, \<open>inbox\<close> and \<open>sent\<close> are the connection;
  \<open>console_lock\<close> is the lock with its holder; \<open>input_required\<close> is the event's flag.
  \<open>terminal\<close> logs every terminal operation with who performed it and who held
  \<open>console_lock\<close> at that moment. \<open>latch_sets\<close> logs the callers of
  \<open>input_required.set()\<close> and \<open>iterations\<close> counts the entries into the body of the
  loop of \<open>send_messages\<close>; no statement reads these two.
\<close>

record state =
  conn_open :: bool
  close_reason :: string
  inbox :: "string list"
  sent :: "string list"
  console_lock :: "actor option"
  input_required :: bool
  terminal :: "(actor \<times> term_op \<times> actor option) list"
  latch_sets :: "actor list"
  iterations :: nat
  sender :: sender_pc
  receiver :: receiver_pc

subsection \<open>The transport\<close>

text \<open>
  Modelled from the spec: the \<open>websockets\<close> connection object, a library that is not part
  of the repository. \<open>open\<close> goes from true to false once; \<open>send\<close> fails with
  \<open>ConnectionClosed\<close> when the channel is no longer open; \<open>recv\<close> hands over the next
  inbound message, waits while there is none and the channel is open, and fails with
  \<open>ConnectionClosed\<close> when the channel is no longer open. The failure carries the close
  reason. A message that arrived before the closure and has not been received yet is
  still handed over; \<open>None\<close> stands for a \<open>recv\<close> that keeps waiting.
\<close>

definition recv :: "state \<Rightarrow> (failure + string \<times> state) option" where
  "recv s =
     (case inbox s of
        m # ms \<Rightarrow> Some (Inr (m, s\<lparr>inbox := ms\<rparr>))
      | [] \<Rightarrow> if conn_open s then None
              else Some (Inl (ConnectionClosed (close_reason s))))"

definition send :: "string \<Rightarrow> state \<Rightarrow> failure + state" where
  "send m s =
     (if conn_open s then Inr (s\<lparr>sent := sent s @ [m]\<rparr>)
      else Inl (ConnectionClosed (close_reason s)))"

subsection \<open>The source functions\<close>

text \<open>\<open>print\<close> and \<open>input\<close>: the operation is appended to the terminal log, with the
  holder of \<open>console_lock\<close> at that moment.\<close>

definition term_io :: "actor \<Rightarrow> term_op \<Rightarrow> state \<Rightarrow> state" where
  "term_io who op s = s\<lparr>terminal := terminal s @ [(who, op, console_lock s)]\<rparr>"

text \<open>Lines 17 to 19.\<close>

definition require_input :: "actor \<Rightarrow> state \<Rightarrow> state" where
  "require_input who s =
     (term_io who PrintBackspaces s)
       \<lparr>input_required := True, latch_sets := latch_sets s @ [who]\<rparr>"

text \<open>The \<open>except websockets.ConnectionClosed as closed\<close> clauses of lines 37 and 50:
  a \<open>ConnectionClosed\<close> enters the handler, any other failure leaves the coroutine.\<close>

fun sender_except :: "failure \<Rightarrow> state \<Rightarrow> state" where
  "sender_except (ConnectionClosed r) s = s\<lparr>sender := S_except r\<rparr>"
| "sender_except (OtherFailure e) s = s\<lparr>sender := S_raised e\<rparr>"

fun receiver_except :: "failure \<Rightarrow> state \<Rightarrow> state" where
  "receiver_except (ConnectionClosed r) s = s\<lparr>receiver := R_except r\<rparr>"
| "receiver_except (OtherFailure e) s = s\<lparr>receiver := R_raised e\<rparr>"

text \<open>One statement of \<open>send_messages\<close> (lines 25 to 38). At \<open>S_input\<close> the coroutine
  waits for the operator; see \<open>typed\<close>.\<close>

definition send_messages :: "state \<Rightarrow> state" where
  "send_messages s =
     (case sender s of
        S_while \<Rightarrow>
          if conn_open s then s\<lparr>sender := S_wait, iterations := Suc (iterations s)\<rparr>
          else s\<lparr>sender := S_returned\<rparr>
      | S_wait \<Rightarrow> if input_required s then s\<lparr>sender := S_if_open\<rparr> else s
      | S_if_open \<Rightarrow>
          if conn_open s then s\<lparr>sender := S_lock\<rparr> else s\<lparr>sender := S_clear\<rparr>
      | S_lock \<Rightarrow>
          (case console_lock s of
             None \<Rightarrow> s\<lparr>console_lock := Some SenderTask, sender := S_input\<rparr>
           | Some h \<Rightarrow> s)
      | S_input \<Rightarrow> s
      | S_unlock m \<Rightarrow> s\<lparr>console_lock := None, sender := S_send m\<rparr>
      | S_send m \<Rightarrow>
          (case send m s of
             Inr s' \<Rightarrow> s'\<lparr>sender := S_clear\<rparr>
           | Inl f \<Rightarrow> sender_except f s)
      | S_clear \<Rightarrow> s\<lparr>input_required := False, sender := S_while\<rparr>
      | S_except r \<Rightarrow> (term_io SenderTask (PrintClosed r) s)\<lparr>sender := S_while\<rparr>
      | S_returned \<Rightarrow> s
      | S_raised e \<Rightarrow> s)"

text \<open>Line 32: the operator types a line at the prompt \<open>Send: \<close>. \<open>input\<close> does not
  return before that, and a line is only typed at a prompt.\<close>

definition typed :: "string \<Rightarrow> state \<Rightarrow> state" where
  "typed line s =
     (case sender s of
        S_input \<Rightarrow> (term_io SenderTask (ReadLine ''Send: '' line) s)\<lparr>sender := S_unlock line\<rparr>
      | _ \<Rightarrow> s)"

text \<open>The call the sender is in (\<open>input\<close> or \<open>connection.send\<close>) raises something that is
  not a \<open>ConnectionClosed\<close>; leaving \<open>async with\<close> by a failure releases the lock.\<close>

definition sender_fault :: "string \<Rightarrow> state \<Rightarrow> state" where
  "sender_fault e s =
     (case sender s of
        S_input \<Rightarrow> sender_except (OtherFailure e) (s\<lparr>console_lock := None\<rparr>)
      | S_send m \<Rightarrow> sender_except (OtherFailure e) s
      | _ \<Rightarrow> s)"

text \<open>One statement of \<open>receive_messages\<close> (lines 44 to 53).\<close>

definition receive_messages :: "state \<Rightarrow> state" where
  "receive_messages s =
     (case receiver s of
        R_while \<Rightarrow>
          if conn_open s then s\<lparr>receiver := R_recv\<rparr> else s\<lparr>receiver := R_require_input\<rparr>
      | R_recv \<Rightarrow>
          (case recv s of
             None \<Rightarrow> s
           | Some (Inr (m, s')) \<Rightarrow> s'\<lparr>receiver := R_lock m\<rparr>
           | Some (Inl f) \<Rightarrow> receiver_except f s)
      | R_lock m \<Rightarrow>
          (case console_lock s of
             None \<Rightarrow> s\<lparr>console_lock := Some ReceiverTask, receiver := R_print m\<rparr>
           | Some h \<Rightarrow> s)
      | R_print m \<Rightarrow> (term_io ReceiverTask (PrintRecv m) s)\<lparr>receiver := R_unlock\<rparr>
      | R_unlock \<Rightarrow> s\<lparr>console_lock := None, receiver := R_while\<rparr>
      | R_except r \<Rightarrow> (term_io ReceiverTask (PrintClosed r) s)\<lparr>receiver := R_while\<rparr>
      | R_require_input \<Rightarrow> (require_input ReceiverTask s)\<lparr>receiver := R_returned\<rparr>
      | R_returned \<Rightarrow> s
      | R_raised e \<Rightarrow> s)"

text \<open>\<open>connection.recv\<close> raises something that is not a \<open>ConnectionClosed\<close>.\<close>

definition receiver_fault :: "string \<Rightarrow> state \<Rightarrow> state" where
  "receiver_fault e s =
     (case receiver s of
        R_recv \<Rightarrow> receiver_except (OtherFailure e) s
      | _ \<Rightarrow> s)"

subsection \<open>The environment and the schedules\<close>

text \<open>The peer delivers a message or the channel closes; both only happen to an open
  channel.\<close>

definition deliver :: "string \<Rightarrow> state \<Rightarrow> state" where
  "deliver m s = (if conn_open s then s\<lparr>inbox := inbox s @ [m]\<rparr> else s)"

definition close :: "string \<Rightarrow> state \<Rightarrow> state" where
  "close r s = (if conn_open s then s\<lparr>conn_open := False, close_reason := r\<rparr> else s)"

datatype label =
    Sigint                 \<comment> \<open>the handler registered in line 63 runs\<close>
  | Close string
  | Deliver string
  | Receiver               \<comment> \<open>\<open>receive_messages\<close> executes a statement\<close>
  | Sender                 \<comment> \<open>\<open>send_messages\<close> executes a statement\<close>
  | Typed string
  | ReceiverFault string
  | SenderFault string

fun step :: "label \<Rightarrow> state \<Rightarrow> state" where
  "step Sigint s = require_input SignalHandler s"
| "step (Close r) s = close r s"
| "step (Deliver m) s = deliver m s"
| "step Receiver s = receive_messages s"
| "step Sender s = send_messages s"
| "step (Typed line) s = typed line s"
| "step (ReceiverFault e) s = receiver_fault e s"
| "step (SenderFault e) s = sender_fault e s"

fun run :: "label list \<Rightarrow> state \<Rightarrow> state" where
  "run [] s = s"
| "run (l # ls) s = run ls (step l s)"

text \<open>\<open>rptl_connection\<close> (lines 60 to 67): a free lock, a cleared event, both coroutines at
  their first statement, on a connection that has just been opened.\<close>

definition init :: state where
  "init = \<lparr>conn_open = True, close_reason = [], inbox = [], sent = [],
           console_lock = None, input_required = False, terminal = [],
           latch_sets = [], iterations = 0, sender = S_while, receiver = R_while\<rparr>"



subsection \<open>Notions used in the statements\<close>

text \<open>Labels that let neither \<open>receive_messages\<close> nor its failing call act, and labels
  that let neither \<open>send_messages\<close>, the operator's typing nor its failing call act.\<close>

fun receiver_idle :: "label \<Rightarrow> bool" where
  "receiver_idle Receiver = False"
| "receiver_idle (ReceiverFault e) = False"
| "receiver_idle _ = True"

fun sender_idle :: "label \<Rightarrow> bool" where
  "sender_idle Sender = False"
| "sender_idle (Typed x) = False"
| "sender_idle (SenderFault e) = False"
| "sender_idle _ = True"

text \<open>The terminal operations one actor has performed, in order.\<close>

definition by_actor :: "actor \<Rightarrow> (actor \<times> term_op \<times> actor option) list \<Rightarrow> term_op list" where
  "by_actor who log = map (fst \<circ> snd) (filter (\<lambda>e. fst e = who) log)"

text \<open>What a coroutine has done so far: its program counter, its terminal operations and,
  for the receiver, its calls of \<open>set()\<close>, for the sender, the messages pushed and the
  iterations begun.\<close>

definition receiver_view :: "state \<Rightarrow> receiver_pc \<times> term_op list \<times> actor list" where
  "receiver_view s =
     (receiver s, by_actor ReceiverTask (terminal s),
      filter (\<lambda>a. a = ReceiverTask) (latch_sets s))"

definition sender_view :: "state \<Rightarrow> sender_pc \<times> term_op list \<times> string list \<times> nat" where
  "sender_view s = (sender s, by_actor SenderTask (terminal s), sent s, iterations s)"

text \<open>Inside \<open>async with console_lock\<close>.\<close>

fun r_holds :: "receiver_pc \<Rightarrow> bool" where
  "r_holds (R_print m) = True"
| "r_holds R_unlock = True"
| "r_holds _ = False"

fun s_holds :: "sender_pc \<Rightarrow> bool" where
  "s_holds S_input = True"
| "s_holds (S_unlock m) = True"
| "s_holds _ = False"

text \<open>Program counters that are only reached once the connection has been seen closed.\<close>

fun r_left :: "receiver_pc \<Rightarrow> bool" where
  "r_left (R_except r) = True"
| "r_left R_require_input = True"
| "r_left R_returned = True"
| "r_left _ = False"

fun s_left :: "sender_pc \<Rightarrow> bool" where
  "s_left (S_except r) = True"
| "s_left S_returned = True"
| "s_left _ = False"

definition lock_inv :: "state \<Rightarrow> bool" where
  "lock_inv s \<longleftrightarrow>
     console_lock s =
       (if r_holds (receiver s) then Some ReceiverTask
        else if s_holds (sender s) then Some SenderTask else None)
     \<and> \<not> (r_holds (receiver s) \<and> s_holds (sender s))"

definition closed_inv :: "state \<Rightarrow> bool" where
  "closed_inv s \<longleftrightarrow>
     (r_left (receiver s) \<longrightarrow> \<not> conn_open s) \<and> (s_left (sender s) \<longrightarrow> \<not> conn_open s)"

text \<open>A state in which the receiver waits in \<open>recv\<close>, the sender waits in \<open>wait\<close> and the
  channel has closed with reason \<open>bye\<close>.\<close>

definition parked_closed :: state where
  "parked_closed = run [Receiver, Sender, Close ''bye''] init"

text \<open>A terminal operation performed by an actor that holds \<open>console_lock\<close>.\<close>

fun arbiter_held :: "actor \<times> term_op \<times> actor option \<Rightarrow> bool" where
  "arbiter_held (who, op, h) = (h = Some who)"

text \<open>The scope of \<open>async with console_lock\<close> in the source: the \<open>print\<close> of a received
  message and the \<open>input\<close> are inside, the closure notices and the \<open>print\<close> of
  \<open>require_input\<close> are outside.\<close>

fun guarded_as_written :: "actor \<times> term_op \<times> actor option \<Rightarrow> bool" where
  "guarded_as_written (who, PrintRecv m, h) = (h = Some who)"
| "guarded_as_written (who, ReadLine p l, h) = (h = Some who)"
| "guarded_as_written (who, PrintClosed r, h) = (h \<noteq> Some who)"
| "guarded_as_written (who, PrintBackspaces, h) = (h \<noteq> Some who)"

text \<open>Who calls \<open>require_input\<close>: the signal handler (line 63) or the receiver (line 53).\<close>

fun caller :: "label \<Rightarrow> actor" where
  "caller Sigint = SignalHandler"
| "caller _ = ReceiverTask"

text \<open>Statements of \<open>send_messages\<close> between the return of \<open>wait()\<close> and the end of
  \<open>connection.send\<close>.\<close>

fun s_past_wait :: "sender_pc \<Rightarrow> bool" where
  "s_past_wait S_if_open = True"
| "s_past_wait S_lock = True"
| "s_past_wait S_input = True"
| "s_past_wait (S_unlock m) = True"
| "s_past_wait (S_send m) = True"
| "s_past_wait _ = False"

definition latched_inv :: "state \<Rightarrow> bool" where
  "latched_inv s \<longleftrightarrow> (s_past_wait (sender s) \<longrightarrow> input_required s)"

text \<open>Statements on the way from the re-check of line 30 to the end of the coroutine
  when the connection is closed.\<close>

fun s_unwinding :: "sender_pc \<Rightarrow> bool" where
  "s_unwinding S_if_open = True"
| "s_unwinding S_clear = True"
| "s_unwinding S_while = True"
| "s_unwinding S_returned = True"
| "s_unwinding _ = False"

text \<open>The operator interrupts and types \<open>x\<close>; the channel closes with reason \<open>gone\<close>
  before the sender reaches \<open>connection.send\<close>.\<close>

definition failed_send :: "label list" where
  "failed_send = [Sigint, Sender, Sender, Sender, Sender, Typed ''x'', Sender, Close ''gone'']"

text \<open>The number of prompts (calls of \<open>input\<close>) so far.\<close>

definition prompts :: "state \<Rightarrow> nat" where
  "prompts s = length (filter is_prompt (map (fst \<circ> snd) (terminal s)))"

text \<open>Whether the sender can still reach \<open>input\<close> without a further interrupt: it is in
  the body before \<open>input\<close>, or at the loop head or in \<open>wait()\<close> with the event set, on
  an open connection.\<close>

definition pending :: "state \<Rightarrow> nat" where
  "pending s =
     (case sender s of
        S_while \<Rightarrow> if conn_open s \<and> input_required s then 1 else 0
      | S_wait \<Rightarrow> if conn_open s \<and> input_required s then 1 else 0
      | S_if_open \<Rightarrow> if conn_open s then 1 else 0
      | S_lock \<Rightarrow> 1
      | S_input \<Rightarrow> 1
      | _ \<Rightarrow> 0)"

text \<open>The state without the two logs.\<close>

definition control :: "state \<Rightarrow> state" where
  "control s = s\<lparr>terminal := [], latch_sets := []\<rparr>"

text \<open>Labels that do not close the channel.\<close>

fun keeps_open :: "label \<Rightarrow> bool" where
  "keeps_open (Close r) = False"
| "keeps_open _ = True"



text \<open>
  The event loop. \<open>input\<close> in line 32 is a synchronous call: from the prompt until the
  line is typed the event loop does not run, so neither the receiver nor the signal
  handler nor the transport acts; only the operator's typing, or a failure of \<open>input\<close>
  itself, ends the call. \<open>loop_step\<close> and \<open>loop_run\<close> are \<open>step\<close> and \<open>run\<close> with every
  other label held back while the sender is in \<open>input\<close>.
\<close>

fun is_typed :: "label \<Rightarrow> bool" where
  "is_typed (Typed x) = True"
| "is_typed _ = False"

fun ends_input :: "label \<Rightarrow> bool" where
  "ends_input (Typed x) = True"
| "ends_input (SenderFault e) = True"
| "ends_input _ = False"

definition input_blocks :: "label \<Rightarrow> state \<Rightarrow> bool" where
  "input_blocks l s \<longleftrightarrow> sender s = S_input \<and> \<not> ends_input l"

definition loop_step :: "label \<Rightarrow> state \<Rightarrow> state" where
  "loop_step l s = (if input_blocks l s then s else step l s)"

fun loop_run :: "label list \<Rightarrow> state \<Rightarrow> state" where
  "loop_run [] s = s"
| "loop_run (l # ls) s = loop_run ls (loop_step l s)"

text \<open>Two terminal operations overlap: while \<open>input\<close> is in progress, a step other than
  the typing of its line performs a terminal operation.\<close>

definition overlaps :: "label \<Rightarrow> state \<Rightarrow> bool" where
  "overlaps l s \<longleftrightarrow>
     sender s = S_input \<and> \<not> is_typed l \<and> terminal (loop_step l s) \<noteq> terminal s"

section \<open>Basic facts\<close>

lemmas step_defs = receive_messages_def send_messages_def typed_def sender_fault_def
  receiver_fault_def deliver_def close_def require_input_def term_io_def recv_def send_def

lemma run_append: "run (xs @ ys) s = run ys (run xs s)"
  by (induction xs arbitrary: s) simp_all

lemma by_actor_append: "by_actor who (xs @ ys) = by_actor who xs @ by_actor who ys"
  by (simp add: by_actor_def)

lemma by_actor_single: "by_actor who [(a, op, h)] = (if a = who then [op] else [])"
  by (simp add: by_actor_def)

subsection \<open>What the other actors leave alone\<close>

lemma receiver_idle_step:
  "receiver_idle l \<Longrightarrow> receiver_view (step l s) = receiver_view s"
  by (cases l; cases "sender s")
     (auto simp: receiver_view_def step_defs by_actor_append by_actor_single
           split: option.splits sum.splits failure.splits if_splits)

lemma sender_idle_step:
  "sender_idle l \<Longrightarrow> sender_view (step l s) = sender_view s"
  by (cases l; cases "receiver s")
     (auto simp: sender_view_def step_defs by_actor_append by_actor_single
           split: option.splits sum.splits failure.splits if_splits list.splits)

lemma closed_step:
  "\<not> conn_open s \<Longrightarrow> \<not> conn_open (step l s) \<and> close_reason (step l s) = close_reason s"
  by (cases l; cases "receiver s"; cases "sender s")
     (auto simp: step_defs split: option.splits sum.splits failure.splits if_splits list.splits)

lemma closed_idle_inbox:
  "\<not> conn_open s \<Longrightarrow> receiver_idle l \<Longrightarrow> inbox (step l s) = inbox s"
  by (cases l; cases "sender s")
     (auto simp: step_defs split: option.splits sum.splits failure.splits if_splits list.splits)

lemma latch_idle_step:
  "input_required s \<Longrightarrow> sender_idle l \<Longrightarrow> input_required (step l s)"
  by (cases l; cases "receiver s")
     (auto simp: step_defs split: option.splits sum.splits failure.splits if_splits list.splits)

lemma receiver_idle_run:
  "list_all receiver_idle e \<Longrightarrow> receiver_view (run e s) = receiver_view s"
  by (induction e arbitrary: s) (simp_all add: receiver_idle_step)

lemma sender_idle_run:
  "list_all sender_idle e \<Longrightarrow> sender_view (run e s) = sender_view s"
  by (induction e arbitrary: s) (simp_all add: sender_idle_step)

lemma closed_run:
  "\<not> conn_open s \<Longrightarrow> \<not> conn_open (run e s) \<and> close_reason (run e s) = close_reason s"
proof (induction e arbitrary: s)
  case Nil
  then show ?case by simp
next
  case (Cons l e)
  from closed_step[OF Cons.prems, of l] Cons.IH[of "step l s"] show ?case by simp
qed

lemma closed_idle_inbox_run:
  "\<not> conn_open s \<Longrightarrow> list_all receiver_idle e \<Longrightarrow> inbox (run e s) = inbox s"
proof (induction e arbitrary: s)
  case Nil
  then show ?case by simp
next
  case (Cons l e)
  from Cons.prems closed_step[of s l] closed_idle_inbox[of s l] Cons.IH[of "step l s"]
  show ?case by simp
qed

lemma latch_idle_run:
  "input_required s \<Longrightarrow> list_all sender_idle e \<Longrightarrow> input_required (run e s)"
  by (induction e arbitrary: s) (simp_all add: latch_idle_step)

subsection \<open>Invariants of every schedule\<close>

lemma lock_inv_init: "lock_inv init"
  by (simp add: lock_inv_def init_def)

lemma lock_inv_step: "lock_inv s \<Longrightarrow> lock_inv (step l s)"
  by (cases l; cases "sender s"; cases "receiver s")
     (auto simp: lock_inv_def step_defs split: option.splits list.splits if_splits)

lemma closed_inv_init: "closed_inv init"
  by (simp add: closed_inv_def init_def)

lemma closed_inv_step: "closed_inv s \<Longrightarrow> closed_inv (step l s)"
  by (cases l; cases "sender s"; cases "receiver s")
     (auto simp: closed_inv_def step_defs split: option.splits list.splits if_splits)

lemma lock_inv_run: "lock_inv s \<Longrightarrow> lock_inv (run ls s)"
  by (induction ls arbitrary: s) (simp_all add: lock_inv_step)

lemma closed_inv_run: "closed_inv s \<Longrightarrow> closed_inv (run ls s)"
  by (induction ls arbitrary: s) (simp_all add: closed_inv_step)

subsection \<open>Single statements of the receiver\<close>

lemma recv_closed_iff:
  "recv s = Some (Inl (ConnectionClosed r)) \<longleftrightarrow>
     inbox s = [] \<and> \<not> conn_open s \<and> close_reason s = r"
  by (auto simp: recv_def split: list.splits)

lemma r_recv_closed:
  assumes "receiver s = R_recv" "inbox s = []" "\<not> conn_open s"
  shows "receiver_view (step Receiver s) =
           (R_except (close_reason s), by_actor ReceiverTask (terminal s),
            filter (\<lambda>a. a = ReceiverTask) (latch_sets s))"
  using assms by (simp add: receiver_view_def step_defs)

lemma r_except_print:
  assumes "receiver s = R_except r"
  shows "receiver_view (step Receiver s) =
           (R_while, by_actor ReceiverTask (terminal s) @ [PrintClosed r],
            filter (\<lambda>a. a = ReceiverTask) (latch_sets s))"
  using assms by (simp add: receiver_view_def step_defs by_actor_append by_actor_single)

lemma r_while_closed:
  assumes "receiver s = R_while" "\<not> conn_open s"
  shows "receiver_view (step Receiver s) =
           (R_require_input, by_actor ReceiverTask (terminal s),
            filter (\<lambda>a. a = ReceiverTask) (latch_sets s))"
  using assms by (simp add: receiver_view_def step_defs)

lemma r_require_input:
  assumes "receiver s = R_require_input"
  shows "receiver_view (step Receiver s) =
           (R_returned, by_actor ReceiverTask (terminal s) @ [PrintBackspaces],
            filter (\<lambda>a. a = ReceiverTask) (latch_sets s) @ [ReceiverTask])
         \<and> input_required (step Receiver s)"
  using assms by (simp add: receiver_view_def step_defs by_actor_append by_actor_single)

lemma wait_released:
  "sender s = S_wait \<Longrightarrow> input_required s \<Longrightarrow> sender (step Sender s) = S_if_open"
  by (simp add: step_defs)

section \<open>The receiver on closure\<close>

lemma receiver_closure_unwinds:
  assumes pc: "receiver s = R_recv"
    and fails: "recv s = Some (Inl (ConnectionClosed r))"
    and idle: "list_all receiver_idle e1" "list_all receiver_idle e2"
              "list_all receiver_idle e3" "list_all receiver_idle e4"
  shows "receiver (run (e1 @ [Receiver]) s) = R_except r
       \<and> receiver_view (run (e1 @ [Receiver] @ e2 @ [Receiver]) s) =
           (R_while, by_actor ReceiverTask (terminal s) @ [PrintClosed r],
            filter (\<lambda>a. a = ReceiverTask) (latch_sets s))
       \<and> receiver (run (e1 @ [Receiver] @ e2 @ [Receiver] @ e3 @ [Receiver]) s) = R_require_input
       \<and> receiver_view (run (e1 @ [Receiver] @ e2 @ [Receiver] @ e3 @ [Receiver] @ e4 @ [Receiver]) s) =
           (R_returned, by_actor ReceiverTask (terminal s) @ [PrintClosed r, PrintBackspaces],
            filter (\<lambda>a. a = ReceiverTask) (latch_sets s) @ [ReceiverTask])
       \<and> input_required (run (e1 @ [Receiver] @ e2 @ [Receiver] @ e3 @ [Receiver] @ e4 @ [Receiver]) s)
       \<and> (sender (run (e1 @ [Receiver] @ e2 @ [Receiver] @ e3 @ [Receiver] @ e4 @ [Receiver]) s) = S_wait \<longrightarrow>
          sender (run (e1 @ [Receiver] @ e2 @ [Receiver] @ e3 @ [Receiver] @ e4 @ [Receiver] @ [Sender]) s) = S_if_open)"
proof -
  from fails have s: "inbox s = []" "\<not> conn_open s" "close_reason s = r"
    by (simp_all add: recv_closed_iff)
  define a0 where "a0 = run e1 s"
  define a1 where "a1 = step Receiver a0"
  define b0 where "b0 = run e2 a1"
  define b1 where "b1 = step Receiver b0"
  define c0 where "c0 = run e3 b1"
  define c1 where "c1 = step Receiver c0"
  define d0 where "d0 = run e4 c1"
  define d1 where "d1 = step Receiver d0"
  have a0: "receiver a0 = R_recv" "inbox a0 = []" "\<not> conn_open a0" "close_reason a0 = r"
    "receiver_view a0 = receiver_view s"
    using receiver_idle_run[OF idle(1), of s] closed_run[OF s(2), of e1]
      closed_idle_inbox_run[OF s(2) idle(1)] pc s
    by (simp_all add: a0_def receiver_view_def)
  have a1: "receiver_view a1 = (R_except r, by_actor ReceiverTask (terminal s),
            filter (\<lambda>a. a = ReceiverTask) (latch_sets s))" "\<not> conn_open a1"
    using r_recv_closed[OF a0(1,2,3)] a0(4,5) closed_step[OF a0(3), of Receiver]
    by (simp_all add: a1_def receiver_view_def)
  have b0: "receiver_view b0 = receiver_view a1" "\<not> conn_open b0"
    using receiver_idle_run[OF idle(2), of a1] closed_run[OF a1(2), of e2]
    by (simp_all add: b0_def)
  have b1: "receiver_view b1 = (R_while, by_actor ReceiverTask (terminal s) @ [PrintClosed r],
            filter (\<lambda>a. a = ReceiverTask) (latch_sets s))" "\<not> conn_open b1"
    using r_except_print[of b0 r] b0 a1(1) closed_step[OF b0(2), of Receiver]
    by (simp_all add: b1_def receiver_view_def)
  have c0: "receiver_view c0 = receiver_view b1" "\<not> conn_open c0"
    using receiver_idle_run[OF idle(3), of b1] closed_run[OF b1(2), of e3]
    by (simp_all add: c0_def)
  have c1: "receiver_view c1 =
      (R_require_input, by_actor ReceiverTask (terminal s) @ [PrintClosed r],
       filter (\<lambda>a. a = ReceiverTask) (latch_sets s))"
    using r_while_closed[of c0] c0 b1(1)
    by (simp_all add: c1_def receiver_view_def)
  have d0: "receiver_view d0 = receiver_view c1"
    using receiver_idle_run[OF idle(4), of c1] by (simp add: d0_def)
  have d1: "receiver_view d1 =
      (R_returned, by_actor ReceiverTask (terminal s) @ [PrintClosed r, PrintBackspaces],
       filter (\<lambda>a. a = ReceiverTask) (latch_sets s) @ [ReceiverTask])" "input_required d1"
    using r_require_input[of d0] d0 c1
    by (simp_all add: d1_def receiver_view_def)
  have runs: "run (e1 @ [Receiver]) s = a1"
    "run (e1 @ [Receiver] @ e2 @ [Receiver]) s = b1"
    "run (e1 @ [Receiver] @ e2 @ [Receiver] @ e3 @ [Receiver]) s = c1"
    "run (e1 @ [Receiver] @ e2 @ [Receiver] @ e3 @ [Receiver] @ e4 @ [Receiver]) s = d1"
    "run (e1 @ [Receiver] @ e2 @ [Receiver] @ e3 @ [Receiver] @ e4 @ [Receiver] @ [Sender]) s
       = step Sender d1"
    by (simp_all add: run_append a0_def a1_def b0_def b1_def c0_def c1_def d0_def d1_def)
  show ?thesis
    unfolding runs
    using a1(1) b1(1) c1 d1 wait_released[of d1]
    by (simp add: receiver_view_def)
qed

text \<open>
  Claim C3. When the receive attempt of \<open>receive_messages\<close> fails with
  \<open>ConnectionClosed\<close> carrying the reason \<open>r\<close>, then, whatever the other actors do in
  between (\<open>e1\<close> to \<open>e4\<close>), the next four statements of the receiver enter the handler,
  print the closure notice with \<open>r\<close>, leave the loop and call \<open>require_input\<close>: the receiver
  has returned, has added exactly one call of \<open>set()\<close> to its calls, the event is set,
  and a sender waiting in \<open>wait()\<close> proceeds with its next statement.
\<close>

theorem C3_receiver_closure:
  assumes pc: "receiver s = R_recv"
    and fails: "recv s = Some (Inl (ConnectionClosed r))"
    and idle: "list_all receiver_idle e1" "list_all receiver_idle e2"
              "list_all receiver_idle e3" "list_all receiver_idle e4"
  shows "receiver (run (e1 @ [Receiver]) s) = R_except r
       \<and> receiver_view (run (e1 @ [Receiver] @ e2 @ [Receiver]) s) =
           (R_while, by_actor ReceiverTask (terminal s) @ [PrintClosed r],
            filter (\<lambda>a. a = ReceiverTask) (latch_sets s))
       \<and> receiver (run (e1 @ [Receiver] @ e2 @ [Receiver] @ e3 @ [Receiver]) s) = R_require_input
       \<and> receiver_view (run (e1 @ [Receiver] @ e2 @ [Receiver] @ e3 @ [Receiver] @ e4 @ [Receiver]) s) =
           (R_returned, by_actor ReceiverTask (terminal s) @ [PrintClosed r, PrintBackspaces],
            filter (\<lambda>a. a = ReceiverTask) (latch_sets s) @ [ReceiverTask])
       \<and> input_required (run (e1 @ [Receiver] @ e2 @ [Receiver] @ e3 @ [Receiver] @ e4 @ [Receiver]) s)
       \<and> (sender (run (e1 @ [Receiver] @ e2 @ [Receiver] @ e3 @ [Receiver] @ e4 @ [Receiver]) s) = S_wait \<longrightarrow>
          sender (run (e1 @ [Receiver] @ e2 @ [Receiver] @ e3 @ [Receiver] @ e4 @ [Receiver] @ [Sender]) s) = S_if_open)"
  by (rule receiver_closure_unwinds[OF assms])

theorem C3_receiver_closure_witness:
  "receiver parked_closed = R_recv
   \<and> recv parked_closed = Some (Inl (ConnectionClosed ''bye''))
   \<and> list_all receiver_idle [Sigint] \<and> list_all receiver_idle [Deliver ''late'']
   \<and> sender (run ([Sigint] @ [Receiver] @ [Deliver ''late''] @ [Receiver] @ [] @ [Receiver] @ [] @ [Receiver])
        parked_closed) = S_wait
   \<and> sender (run ([Sigint] @ [Receiver] @ [Deliver ''late''] @ [Receiver] @ [] @ [Receiver] @ [] @ [Receiver] @ [Sender])
        parked_closed) = S_if_open
   \<and> receiver (run ([Sigint] @ [Receiver] @ [Deliver ''late''] @ [Receiver] @ [] @ [Receiver] @ [] @ [Receiver])
        parked_closed) = R_returned"
proof -
  have h1: "receiver parked_closed = R_recv"
    by (simp add: parked_closed_def init_def step_defs)
  have h2: "recv parked_closed = Some (Inl (ConnectionClosed ''bye''))"
    by (simp add: parked_closed_def init_def step_defs)
  have h3: "list_all receiver_idle [Sigint]" "list_all receiver_idle [Deliver ''late'']"
    "list_all receiver_idle []"
    by simp_all
  have h4: "sender (run ([Sigint] @ [Receiver] @ [Deliver ''late''] @ [Receiver] @ [] @ [Receiver] @ [] @ [Receiver])
        parked_closed) = S_wait"
    by (simp add: parked_closed_def init_def step_defs)
  from C3_receiver_closure[OF h1 h2 h3(1) h3(2) h3(3) h3(3)] h1 h2 h3 h4
  show ?thesis by (simp add: receiver_view_def)
qed

section \<open>The scope of the console lock\<close>

lemma term_inv_step:
  "lock_inv s \<Longrightarrow> list_all guarded_as_written (terminal s) \<Longrightarrow>
   list_all guarded_as_written (terminal (step l s))"
  by (cases l; cases "sender s"; cases "receiver s")
     (auto simp: lock_inv_def step_defs split: option.splits list.splits if_splits)

lemma term_inv_run:
  "lock_inv s \<Longrightarrow> list_all guarded_as_written (terminal s) \<Longrightarrow>
   list_all guarded_as_written (terminal (run ls s))"
  by (induction ls arbitrary: s) (simp_all add: term_inv_step lock_inv_step)

text \<open>
  Claim C1, as stated: every terminal operation is performed by an actor holding
  \<open>console_lock\<close>. It fails: the receiver waits in \<open>recv\<close>, the channel closes, and the
  handler of line 51 prints the closure notice while nobody holds the lock.
\<close>

theorem C1_counterexample:
  "\<not> list_all arbiter_held (terminal (run [Receiver, Close ''bye'', Receiver, Receiver] init))"
  by (simp add: init_def step_defs)

lemma loop_run_is_run: "\<exists>ls'. loop_run ls s = run ls' s"
proof (induction ls arbitrary: s)
  case Nil
  have "loop_run [] s = run [] s" by simp
  then show ?case by blast
next
  case (Cons l ls)
  show ?case
  proof (cases "input_blocks l s")
    case True
    with Cons.IH[of s] show ?thesis by (simp add: loop_step_def)
  next
    case False
    from Cons.IH[of "step l s"] obtain ls' where "loop_run ls (step l s) = run ls' (step l s)"
      by blast
    with False have "loop_run (l # ls) s = run (l # ls') s" by (simp add: loop_step_def)
    then show ?thesis by blast
  qed
qed

lemma terminal_step:
  "terminal (step l s) = terminal s \<or> (\<exists>e. terminal (step l s) = terminal s @ [e])"
  by (cases l; cases "sender s"; cases "receiver s")
     (auto simp: step_defs split: option.splits list.splits if_splits)

lemma terminal_loop_step:
  "take (length (terminal s)) (terminal (loop_step l s)) = terminal s
   \<and> length (terminal (loop_step l s)) \<le> Suc (length (terminal s))"
  using terminal_step[of l s] by (auto simp: loop_step_def)

lemma no_overlap: "\<not> overlaps l s"
  by (cases l) (auto simp: overlaps_def loop_step_def input_blocks_def sender_fault_def)

text \<open>
  Claim C1, amended. In every schedule, each \<open>print\<close> of a received message and each
  \<open>input\<close> is performed by the coroutine that holds \<open>console_lock\<close>, the two coroutines
  are never both inside \<open>async with console_lock\<close>, and each closure notice and each
  \<open>print\<close> of \<open>require_input\<close> is performed by an actor that does not hold the lock. The
  same holds in every schedule of the event loop, and there no two terminal operations
  overlap: every step performs at most one terminal operation, appended to those before
  it, and while \<open>input\<close> is in progress no step but the typing of its line performs one.
\<close>

theorem C1_arbiter_scope:
  "list_all guarded_as_written (terminal (run ls init))
   \<and> \<not> (r_holds (receiver (run ls init)) \<and> s_holds (sender (run ls init)))
   \<and> list_all guarded_as_written (terminal (loop_run ls init))
   \<and> \<not> (r_holds (receiver (loop_run ls init)) \<and> s_holds (sender (loop_run ls init)))
   \<and> \<not> overlaps l (loop_run ls init)
   \<and> take (length (terminal (loop_run ls init))) (terminal (loop_step l (loop_run ls init)))
       = terminal (loop_run ls init)
   \<and> length (terminal (loop_step l (loop_run ls init))) \<le> Suc (length (terminal (loop_run ls init)))"
proof -
  have A: "list_all guarded_as_written (terminal (run ks init))
      \<and> \<not> (r_holds (receiver (run ks init)) \<and> s_holds (sender (run ks init)))" for ks
  proof -
    have "lock_inv (run ks init)" by (rule lock_inv_run[OF lock_inv_init])
    moreover have "list_all guarded_as_written (terminal (run ks init))"
      by (rule term_inv_run[OF lock_inv_init]) (simp add: init_def)
    ultimately show ?thesis by (simp add: lock_inv_def)
  qed
  obtain ls' where "loop_run ls init = run ls' init"
    using loop_run_is_run by blast
  with A[of ls] A[of ls'] no_overlap[of l "loop_run ls init"]
    terminal_loop_step[of "loop_run ls init" l]
  show ?thesis by simp
qed

theorem C1_arbiter_scope_witness:
  "sender (loop_run [Sigint, Sender, Sender, Sender, Sender] init) = S_input
   \<and> \<not> overlaps (Close ''bye'') (loop_run [Sigint, Sender, Sender, Sender, Sender] init)
   \<and> terminal (loop_run [Sigint, Sender, Sender, Sender, Sender, Close ''bye'', Receiver, Receiver, Receiver] init)
       = [(SignalHandler, PrintBackspaces, None)]
   \<and> terminal (loop_run [Sigint, Sender, Sender, Sender, Sender, Close ''bye'', Receiver, Typed ''x''] init)
       = [(SignalHandler, PrintBackspaces, None), (SenderTask, ReadLine ''Send: '' ''x'', Some SenderTask)]
   \<and> list_all guarded_as_written
        (terminal (loop_run [Sigint, Sender, Sender, Sender, Sender, Close ''bye'', Receiver, Typed ''x''] init))"
  using C1_arbiter_scope[of "[Sigint, Sender, Sender, Sender, Sender]" "Close ''bye''"]
    C1_arbiter_scope[of "[Sigint, Sender, Sender, Sender, Sender, Close ''bye'', Receiver, Typed ''x'']" Sender]
  by (simp add: init_def step_defs loop_step_def input_blocks_def)

section \<open>\<open>require_input\<close>\<close>

lemma latch_sets_step:
  "lock_inv s \<Longrightarrow>
   (if l = Sigint \<or> (l = Receiver \<and> receiver s = R_require_input)
    then step l s = (if l = Sigint then require_input SignalHandler s
                     else (require_input ReceiverTask s)\<lparr>receiver := R_returned\<rparr>)
       \<and> terminal (step l s) = terminal s @ [(caller l, PrintBackspaces, console_lock s)]
       \<and> rendered PrintBackspaces = [CHR 0x08, CHR 0x08]
       \<and> console_lock s \<noteq> Some (caller l)
       \<and> console_lock (step l s) = console_lock s
       \<and> input_required (step l s)
       \<and> latch_sets (step l s) = latch_sets s @ [caller l]
    else latch_sets (step l s) = latch_sets s
       \<and> (input_required (step l s) \<longrightarrow> input_required s))"
  by (cases l; cases "sender s"; cases "receiver s")
     (auto simp: lock_inv_def step_defs split: option.splits list.splits if_splits)

text \<open>
  Claim C10. In every schedule, a step that is the signal handler or the receiver's
  line 53 is a call of \<open>require_input\<close>: it writes the two backspaces, the writer does not
  hold \<open>console_lock\<close> and does not take it, and the event is set. Every other step calls
  \<open>set()\<close> not at all and does not activate the event. So the event is only ever
  activated together with a terminal write outside the lock.
\<close>

theorem C10_require_input_unprotected:
  "(if l = Sigint \<or> (l = Receiver \<and> receiver (run ls init) = R_require_input)
    then step l (run ls init) =
           (if l = Sigint then require_input SignalHandler (run ls init)
            else (require_input ReceiverTask (run ls init))\<lparr>receiver := R_returned\<rparr>)
       \<and> terminal (step l (run ls init)) =
           terminal (run ls init) @ [(caller l, PrintBackspaces, console_lock (run ls init))]
       \<and> rendered PrintBackspaces = [CHR 0x08, CHR 0x08]
       \<and> console_lock (run ls init) \<noteq> Some (caller l)
       \<and> console_lock (step l (run ls init)) = console_lock (run ls init)
       \<and> input_required (step l (run ls init))
       \<and> latch_sets (step l (run ls init)) = latch_sets (run ls init) @ [caller l]
    else latch_sets (step l (run ls init)) = latch_sets (run ls init)
       \<and> (input_required (step l (run ls init)) \<longrightarrow> input_required (run ls init)))"
  by (rule latch_sets_step[OF lock_inv_run[OF lock_inv_init]])

theorem C10_require_input_unprotected_witness:
  "terminal (step Sigint (run [Receiver, Sender] init)) = [(SignalHandler, PrintBackspaces, None)]
   \<and> input_required (step Sigint (run [Receiver, Sender] init))
   \<and> input_required (step Sender (run [Sigint, Sender, Sender] init))
   \<and> input_required (run [Sigint, Sender, Sender] init)
   \<and> terminal (step Receiver (run [Close ''bye'', Receiver] init)) = [(ReceiverTask, PrintBackspaces, None)]"
  using C10_require_input_unprotected[of Sigint "[Receiver, Sender]"]
    C10_require_input_unprotected[of Sender "[Sigint, Sender, Sender]"]
    C10_require_input_unprotected[of Receiver "[Close ''bye'', Receiver]"]
  by (simp add: init_def step_defs)

lemma latched_inv_init: "latched_inv init"
  by (simp add: latched_inv_def init_def)

lemma latched_inv_step: "latched_inv s \<Longrightarrow> latched_inv (step l s)"
  by (cases l; cases "sender s"; cases "receiver s")
     (auto simp: latched_inv_def step_defs split: option.splits list.splits if_splits)

lemma latched_inv_run: "latched_inv s \<Longrightarrow> latched_inv (run ls s)"
  by (induction ls arbitrary: s) (simp_all add: latched_inv_step)

lemma send_closed_iff:
  "send m s = Inl (ConnectionClosed r) \<longleftrightarrow> \<not> conn_open s \<and> close_reason s = r"
  by (auto simp: send_def)

section \<open>Clearing the event\<close>

text \<open>
  Claim C2, as stated: the event is cleared before the iteration ends on every path,
  also after a send that fails with \<open>ConnectionClosed\<close>. It fails there: the failing
  \<open>send\<close> leaves the \<open>try\<close> body before line 36, and the iteration ends at the loop
  head with the event still set.
\<close>

theorem C2_counterexample:
  "sender (run failed_send init) = S_send ''x''
   \<and> send ''x'' (run failed_send init) = Inl (ConnectionClosed ''gone'')
   \<and> sender (run (failed_send @ [Sender, Sender]) init) = S_while
   \<and> input_required (run (failed_send @ [Sender, Sender]) init)"
  by (simp add: failed_send_def init_def step_defs)

text \<open>
  Claim C2, amended. An iteration that has passed \<open>wait()\<close> reaches
  \<open>input_required.clear()\<close> after a successful send and after skipping the prompt because
  the session closed while waiting, and that statement, the last of the iteration,
  leaves the event cleared. After a send that fails with \<open>ConnectionClosed\<close> the
  iteration ends through the handler, which leaves the event as it is. The loop head is
  only reached from these two statements, and line 36 only from the two paths named.
\<close>

theorem C2_latch_clear_paths:
  "(sender s = S_if_open \<and> \<not> conn_open s \<longrightarrow> sender (step Sender s) = S_clear)
   \<and> (sender s = S_send m \<and> conn_open s \<longrightarrow>
        sender (step Sender s) = S_clear \<and> sent (step Sender s) = sent s @ [m])
   \<and> (sender s = S_clear \<longrightarrow>
        sender (step Sender s) = S_while \<and> \<not> input_required (step Sender s))
   \<and> (sender s = S_send m \<and> \<not> conn_open s \<longrightarrow>
        sender (step Sender s) = S_except (close_reason s)
        \<and> input_required (step Sender s) = input_required s)
   \<and> (sender s = S_except r \<longrightarrow>
        sender (step Sender s) = S_while \<and> input_required (step Sender s) = input_required s)
   \<and> (sender (step l s) = S_while \<and> sender s \<noteq> S_while \<longrightarrow>
        l = Sender \<and> (sender s = S_clear \<or> (\<exists>r'. sender s = S_except r')))
   \<and> (sender (step l s) = S_clear \<and> sender s \<noteq> S_clear \<longrightarrow>
        l = Sender \<and> ((sender s = S_if_open \<and> \<not> conn_open s)
                      \<or> (\<exists>m'. sender s = S_send m' \<and> conn_open s)))"
  by (cases l; cases "sender s"; cases "receiver s")
     (auto simp: step_defs split: option.splits list.splits if_splits)

theorem C2_latch_clear_paths_witness:
  "sender (run [Sigint, Sender, Close ''gone'', Sender] init) = S_if_open
   \<and> \<not> conn_open (run [Sigint, Sender, Close ''gone'', Sender] init)
   \<and> sender (run [Sigint, Sender, Close ''gone'', Sender, Sender] init) = S_clear
   \<and> sender (run [Sigint, Sender, Close ''gone'', Sender, Sender, Sender] init) = S_while
   \<and> \<not> input_required (run [Sigint, Sender, Close ''gone'', Sender, Sender, Sender] init)
   \<and> sender (run [Sigint, Sender, Sender, Sender, Sender, Typed ''x'', Sender] init) = S_send ''x''
   \<and> conn_open (run [Sigint, Sender, Sender, Sender, Sender, Typed ''x'', Sender] init)
   \<and> sent (run [Sigint, Sender, Sender, Sender, Sender, Typed ''x'', Sender, Sender] init) = [''x'']
   \<and> sender (run failed_send init) = S_send ''x''
   \<and> \<not> conn_open (run failed_send init)
   \<and> sender (run (failed_send @ [Sender]) init) = S_except ''gone''
   \<and> sender (run (failed_send @ [Sender, Sender]) init) = S_while
   \<and> input_required (run (failed_send @ [Sender, Sender]) init)"
proof -
  define a where "a = run [Sigint, Sender, Close ''gone'', Sender] init"
  define b where "b = run [Sigint, Sender, Sender, Sender, Sender, Typed ''x'', Sender] init"
  define c where "c = run failed_send init"
  have a: "sender a = S_if_open" "\<not> conn_open a"
    by (simp_all add: a_def init_def step_defs)
  have b: "sender b = S_send ''x''" "conn_open b" "sent b = []"
    by (simp_all add: b_def init_def step_defs)
  have c: "sender c = S_send ''x''" "\<not> conn_open c" "close_reason c = ''gone''" "input_required c"
    by (simp_all add: c_def failed_send_def init_def step_defs)
  have a1: "sender (step Sender a) = S_clear"
    using C2_latch_clear_paths[where s=a and l=Sender] a by simp
  have a2: "sender (step Sender (step Sender a)) = S_while"
    "\<not> input_required (step Sender (step Sender a))"
    "Sender = Sender \<and> (sender (step Sender a) = S_clear \<or> (\<exists>r'. sender (step Sender a) = S_except r'))"
    using C2_latch_clear_paths[where s="step Sender a" and l=Sender] a1 by simp_all
  have a3: "Sender = Sender \<and> ((sender a = S_if_open \<and> \<not> conn_open a)
                      \<or> (\<exists>m'. sender a = S_send m' \<and> conn_open a))"
    using C2_latch_clear_paths[where s=a and l=Sender] a a1 by simp
  have b1: "sender (step Sender b) = S_clear" "sent (step Sender b) = [''x'']"
    using C2_latch_clear_paths[where s=b and m="''x''" and l=Sender] b by simp_all
  have c1: "sender (step Sender c) = S_except ''gone''" "input_required (step Sender c)"
    using C2_latch_clear_paths[where s=c and m="''x''" and l=Sender] c by simp_all
  have c2: "sender (step Sender (step Sender c)) = S_while"
    "input_required (step Sender (step Sender c))"
    using C2_latch_clear_paths[where s="step Sender c" and r="''gone''" and l=Sender] c1 by simp_all
  show ?thesis
    using a a1 a2 b b1 c c1 c2
    by (simp add: a_def b_def c_def run_append)
qed

section \<open>The sender after a failed send\<close>

text \<open>
  Claim C9, as stated: after the failed send the loop ends after exactly one further
  iteration, through the clear-and-exit path. It fails: the coroutine returns with the
  iteration count unchanged and the event still set.
\<close>

theorem C9_counterexample:
  "sender (run failed_send init) = S_send ''x''
   \<and> send ''x'' (run failed_send init) = Inl (ConnectionClosed ''gone'')
   \<and> iterations (run failed_send init) = 1
   \<and> sender (run (failed_send @ [Sender, Sender, Sender]) init) = S_returned
   \<and> iterations (run (failed_send @ [Sender, Sender, Sender]) init) = 1
   \<and> input_required (run (failed_send @ [Sender, Sender, Sender]) init)"
  by (simp add: failed_send_def init_def step_defs)

lemma sender_view_pc: "sender_view s = (pc, t, m, n) \<Longrightarrow> sender s = pc"
  by (simp add: sender_view_def)

lemma s_send_closed:
  assumes "sender s = S_send m" "\<not> conn_open s"
  shows "sender_view (step Sender s) =
           (S_except (close_reason s), by_actor SenderTask (terminal s), sent s, iterations s)
         \<and> input_required (step Sender s) = input_required s"
  using assms by (simp add: sender_view_def step_defs)

lemma s_except_print:
  assumes "sender s = S_except r"
  shows "sender_view (step Sender s) =
           (S_while, by_actor SenderTask (terminal s) @ [PrintClosed r], sent s, iterations s)
         \<and> input_required (step Sender s) = input_required s"
  using assms by (simp add: sender_view_def step_defs by_actor_append by_actor_single)

lemma s_while_closed:
  assumes "sender s = S_while" "\<not> conn_open s"
  shows "sender_view (step Sender s) =
           (S_returned, by_actor SenderTask (terminal s), sent s, iterations s)
         \<and> input_required (step Sender s) = input_required s"
  using assms by (simp add: sender_view_def step_defs)

lemma failed_send_unwinds:
  assumes pc: "sender s = S_send m"
    and fails: "send m s = Inl (ConnectionClosed r)"
    and latch: "input_required s"
    and idle: "list_all sender_idle e1" "list_all sender_idle e2" "list_all sender_idle e3"
  shows "sender_view (run (e1 @ [Sender] @ e2 @ [Sender]) s) =
           (S_while, by_actor SenderTask (terminal s) @ [PrintClosed r], sent s, iterations s)
       \<and> input_required (run (e1 @ [Sender] @ e2 @ [Sender]) s)
       \<and> sender_view (run (e1 @ [Sender] @ e2 @ [Sender] @ e3 @ [Sender]) s) =
           (S_returned, by_actor SenderTask (terminal s) @ [PrintClosed r], sent s, iterations s)
       \<and> input_required (run (e1 @ [Sender] @ e2 @ [Sender] @ e3 @ [Sender]) s)"
proof -
  from fails have s: "\<not> conn_open s" "close_reason s = r"
    by (simp_all add: send_closed_iff)
  define a0 where "a0 = run e1 s"
  define a1 where "a1 = step Sender a0"
  define b0 where "b0 = run e2 a1"
  define b1 where "b1 = step Sender b0"
  define c0 where "c0 = run e3 b1"
  define c1 where "c1 = step Sender c0"
  have a0: "sender_view a0 = sender_view s" "\<not> conn_open a0" "close_reason a0 = r"
    "input_required a0"
    using sender_idle_run[OF idle(1), of s] closed_run[OF s(1), of e1] s(2)
      latch_idle_run[OF latch idle(1)]
    by (simp_all add: a0_def)
  have a1: "sender_view a1 = (S_except r, by_actor SenderTask (terminal s), sent s, iterations s)"
    "\<not> conn_open a1" "input_required a1"
    using s_send_closed[of a0 m] a0 pc closed_step[OF a0(2), of Sender]
    by (simp_all add: a1_def sender_view_def)
  have b0: "sender_view b0 = sender_view a1" "\<not> conn_open b0" "input_required b0"
    using sender_idle_run[OF idle(2), of a1] closed_run[OF a1(2), of e2]
      latch_idle_run[OF a1(3) idle(2)]
    by (simp_all add: b0_def)
  have b1: "sender_view b1 =
      (S_while, by_actor SenderTask (terminal s) @ [PrintClosed r], sent s, iterations s)"
    "\<not> conn_open b1" "input_required b1"
    using s_except_print[of b0 r] b0 a1(1) closed_step[OF b0(2), of Sender]
    by (simp_all add: b1_def sender_view_def)
  have c0: "sender_view c0 = sender_view b1" "\<not> conn_open c0" "input_required c0"
    using sender_idle_run[OF idle(3), of b1] closed_run[OF b1(2), of e3]
      latch_idle_run[OF b1(3) idle(3)]
    by (simp_all add: c0_def)
  have c1: "sender_view c1 =
      (S_returned, by_actor SenderTask (terminal s) @ [PrintClosed r], sent s, iterations s)"
    "input_required c1"
    using s_while_closed[of c0] c0 b1(1)
    by (simp_all add: c1_def sender_view_def)
  have runs: "run (e1 @ [Sender] @ e2 @ [Sender]) s = b1"
    "run (e1 @ [Sender] @ e2 @ [Sender] @ e3 @ [Sender]) s = c1"
    by (simp_all add: run_append a0_def a1_def b0_def b1_def c0_def c1_def)
  show ?thesis unfolding runs using b1 c1 by simp
qed

text \<open>
  Claim C9, amended. If the send attempt raises \<open>ConnectionClosed\<close> with reason \<open>r\<close>,
  then, whatever the other actors do in between, the sender's next two statements print
  the closure notice and reach the loop head with the event still set, and its third
  statement, the loop condition, ends the coroutine: no further iteration begins,
  nothing more is sent, and the event is still set when the sender has returned.
\<close>

theorem C9_failed_send_exit:
  assumes pc: "sender (run ls init) = S_send m"
    and fails: "send m (run ls init) = Inl (ConnectionClosed r)"
    and idle: "list_all sender_idle e1" "list_all sender_idle e2" "list_all sender_idle e3"
  shows "sender_view (run (e1 @ [Sender] @ e2 @ [Sender]) (run ls init)) =
           (S_while, by_actor SenderTask (terminal (run ls init)) @ [PrintClosed r],
            sent (run ls init), iterations (run ls init))
       \<and> input_required (run (e1 @ [Sender] @ e2 @ [Sender]) (run ls init))
       \<and> sender_view (run (e1 @ [Sender] @ e2 @ [Sender] @ e3 @ [Sender]) (run ls init)) =
           (S_returned, by_actor SenderTask (terminal (run ls init)) @ [PrintClosed r],
            sent (run ls init), iterations (run ls init))
       \<and> input_required (run (e1 @ [Sender] @ e2 @ [Sender] @ e3 @ [Sender]) (run ls init))"
proof -
  have "latched_inv (run ls init)" by (rule latched_inv_run[OF latched_inv_init])
  with pc have "input_required (run ls init)" by (simp add: latched_inv_def)
  from failed_send_unwinds[OF pc fails this idle] show ?thesis .
qed

theorem C9_failed_send_exit_witness:
  "sender (run failed_send init) = S_send ''x''
   \<and> send ''x'' (run failed_send init) = Inl (ConnectionClosed ''gone'')
   \<and> list_all sender_idle [Sigint] \<and> list_all sender_idle [Receiver]
   \<and> sender (run ([Sigint] @ [Sender] @ [Receiver] @ [Sender] @ [] @ [Sender]) (run failed_send init)) = S_returned
   \<and> iterations (run ([Sigint] @ [Sender] @ [Receiver] @ [Sender] @ [] @ [Sender]) (run failed_send init)) = 1
   \<and> input_required (run ([Sigint] @ [Sender] @ [Receiver] @ [Sender] @ [] @ [Sender]) (run failed_send init))"
proof -
  have h1: "sender (run failed_send init) = S_send ''x''"
    by (simp add: failed_send_def init_def step_defs)
  have h2: "send ''x'' (run failed_send init) = Inl (ConnectionClosed ''gone'')"
    by (simp add: failed_send_def init_def step_defs)
  have h3: "list_all sender_idle [Sigint]" "list_all sender_idle [Receiver]"
    "list_all sender_idle []"
    by simp_all
  have h4: "iterations (run failed_send init) = 1"
    by (simp add: failed_send_def init_def step_defs)
  from C9_failed_send_exit[OF h1 h2 h3] h1 h2 h3 h4
  show ?thesis by (simp add: sender_view_def)
qed

section \<open>The sender when the session closed while it waited\<close>

lemma s_if_closed:
  assumes "sender s = S_if_open" "\<not> conn_open s"
  shows "sender_view (step Sender s) =
           (S_clear, by_actor SenderTask (terminal s), sent s, iterations s)"
  using assms by (simp add: sender_view_def step_defs)

lemma s_clear:
  assumes "sender s = S_clear"
  shows "sender_view (step Sender s) =
           (S_while, by_actor SenderTask (terminal s), sent s, iterations s)
         \<and> \<not> input_required (step Sender s)"
  using assms by (simp add: sender_view_def step_defs)

lemma unwinding_step:
  "\<not> conn_open s \<Longrightarrow> s_unwinding (sender s) \<Longrightarrow>
   s_unwinding (sender (step l s))
   \<and> by_actor SenderTask (terminal (step l s)) = by_actor SenderTask (terminal s)
   \<and> sent (step l s) = sent s"
  by (cases l; cases "sender s"; cases "receiver s")
     (auto simp: step_defs by_actor_append by_actor_single
           split: option.splits list.splits if_splits)

lemma unwinding_run:
  "\<not> conn_open s \<Longrightarrow> s_unwinding (sender s) \<Longrightarrow>
   s_unwinding (sender (run ls s))
   \<and> by_actor SenderTask (terminal (run ls s)) = by_actor SenderTask (terminal s)
   \<and> sent (run ls s) = sent s"
proof (induction ls arbitrary: s)
  case Nil
  then show ?case by simp
next
  case (Cons l ls)
  from unwinding_step[OF Cons.prems, of l] closed_step[OF Cons.prems(1), of l]
    Cons.IH[of "step l s"]
  show ?case by simp
qed

text \<open>
  Claim C4. When the re-check of line 30 finds the session closed after \<open>wait()\<close> has
  returned, then, whatever the other actors do in between, the sender's next statement is
  \<open>input_required.clear()\<close>, which leaves the event cleared, and the one after is the
  loop condition, which ends the coroutine; and in every schedule from that state
  (\<open>ls\<close>) the sender performs no terminal operation, so no prompt and no line read, and
  sends nothing.
\<close>

theorem C4_closed_after_wait:
  assumes pc: "sender s = S_if_open"
    and closed: "\<not> conn_open s"
    and idle: "list_all sender_idle e1" "list_all sender_idle e2" "list_all sender_idle e3"
  shows "sender (run (e1 @ [Sender]) s) = S_clear
       \<and> \<not> input_required (run (e1 @ [Sender] @ e2 @ [Sender]) s)
       \<and> sender_view (run (e1 @ [Sender] @ e2 @ [Sender] @ e3 @ [Sender]) s) =
           (S_returned, by_actor SenderTask (terminal s), sent s, iterations s)
       \<and> by_actor SenderTask (terminal (run ls s)) = by_actor SenderTask (terminal s)
       \<and> sent (run ls s) = sent s"
proof -
  define a0 where "a0 = run e1 s"
  define a1 where "a1 = step Sender a0"
  define b0 where "b0 = run e2 a1"
  define b1 where "b1 = step Sender b0"
  define c0 where "c0 = run e3 b1"
  define c1 where "c1 = step Sender c0"
  have a0: "sender_view a0 = sender_view s" "\<not> conn_open a0"
    using sender_idle_run[OF idle(1), of s] closed_run[OF closed, of e1]
    by (simp_all add: a0_def)
  have a1: "sender_view a1 = (S_clear, by_actor SenderTask (terminal s), sent s, iterations s)"
    "\<not> conn_open a1"
    using s_if_closed[of a0] a0 pc closed_step[OF a0(2), of Sender]
    by (simp_all add: a1_def sender_view_def)
  have b0: "sender_view b0 = sender_view a1" "\<not> conn_open b0"
    using sender_idle_run[OF idle(2), of a1] closed_run[OF a1(2), of e2]
    by (simp_all add: b0_def)
  have b1: "sender_view b1 = (S_while, by_actor SenderTask (terminal s), sent s, iterations s)"
    "\<not> conn_open b1" "\<not> input_required b1"
    using s_clear[of b0] b0 a1(1) closed_step[OF b0(2), of Sender]
    by (simp_all add: b1_def sender_view_def)
  have c0: "sender_view c0 = sender_view b1" "\<not> conn_open c0"
    using sender_idle_run[OF idle(3), of b1] closed_run[OF b1(2), of e3]
    by (simp_all add: c0_def)
  have c1: "sender_view c1 = (S_returned, by_actor SenderTask (terminal s), sent s, iterations s)"
    using s_while_closed[of c0] c0 b1(1)
    by (simp_all add: c1_def sender_view_def)
  have runs: "run (e1 @ [Sender]) s = a1"
    "run (e1 @ [Sender] @ e2 @ [Sender]) s = b1"
    "run (e1 @ [Sender] @ e2 @ [Sender] @ e3 @ [Sender]) s = c1"
    by (simp_all add: run_append a0_def a1_def b0_def b1_def c0_def c1_def)
  have "s_unwinding (sender s)" using pc by simp
  from unwinding_run[OF closed this, of ls] show ?thesis
    unfolding runs using a1(1) b1 c1 by (simp add: sender_view_def)
qed

theorem C4_closed_after_wait_witness:
  "sender parked_closed = S_wait
   \<and> sender (run [Sigint, Sender] parked_closed) = S_if_open
   \<and> \<not> conn_open (run [Sigint, Sender] parked_closed)
   \<and> list_all sender_idle [Receiver] \<and> list_all sender_idle [Sigint]
   \<and> sender (run ([Receiver] @ [Sender] @ [] @ [Sender] @ [Sigint] @ [Sender])
       (run [Sigint, Sender] parked_closed)) = S_returned
   \<and> sent (run [Sender, Typed ''late'', Sender, Sender, Sender] (run [Sigint, Sender] parked_closed)) = []
   \<and> by_actor SenderTask (terminal (run [Sender, Typed ''late'', Sender, Sender, Sender]
       (run [Sigint, Sender] parked_closed))) = []"
proof -
  have h1: "sender (run [Sigint, Sender] parked_closed) = S_if_open"
    by (simp add: parked_closed_def init_def step_defs)
  have h2: "\<not> conn_open (run [Sigint, Sender] parked_closed)"
    by (simp add: parked_closed_def init_def step_defs)
  have h3: "list_all sender_idle [Receiver]" "list_all sender_idle []" "list_all sender_idle [Sigint]"
    by simp_all
  have h4: "sent (run [Sigint, Sender] parked_closed) = []"
    "by_actor SenderTask (terminal (run [Sigint, Sender] parked_closed)) = []"
    "sender parked_closed = S_wait"
    by (simp_all add: parked_closed_def init_def step_defs by_actor_def)
  from C4_closed_after_wait[OF h1 h2 h3, of "[Sender, Typed ''late'', Sender, Sender, Sender]"]
    h1 h2 h3 h4
  show ?thesis by (simp add: sender_view_def)
qed

section \<open>Failures\<close>













section \<open>Interrupts and prompts\<close>

lemma pending_le: "pending s \<le> 1"
  by (cases "sender s") (simp_all add: pending_def)

lemma pending_step:
  "closed_inv s \<Longrightarrow> l \<noteq> Sigint \<Longrightarrow>
   prompts (step l s) + pending (step l s) \<le> prompts s + pending s"
  by (cases l; cases "sender s"; cases "receiver s")
     (auto simp: closed_inv_def prompts_def pending_def step_defs
           split: option.splits list.splits if_splits)

lemma pending_run:
  "closed_inv s \<Longrightarrow> Sigint \<notin> set ls \<Longrightarrow>
   prompts (run ls s) + pending (run ls s) \<le> prompts s + pending s"
proof (induction ls arbitrary: s)
  case Nil
  then show ?case by simp
next
  case (Cons l ls)
  have "prompts (run ls (step l s)) + pending (run ls (step l s))
          \<le> prompts (step l s) + pending (step l s)"
    using Cons.prems by (intro Cons.IH closed_inv_step) simp_all
  also have "\<dots> \<le> prompts s + pending s"
    using Cons.prems by (intro pending_step) auto
  finally show ?case by simp
qed

lemma sigints_control:
  "control (run (replicate (Suc n) Sigint) s) = control (step Sigint s)"
proof (induction n arbitrary: s)
  case 0
  show ?case by simp
next
  case (Suc n)
  have "control (run (replicate (Suc (Suc n)) Sigint) s)
          = control (run (replicate (Suc n) Sigint) (step Sigint s))"
    by simp
  also have "\<dots> = control (step Sigint (step Sigint s))"
    by (rule Suc.IH)
  also have "\<dots> = control (step Sigint s)"
    by (simp add: control_def require_input_def term_io_def)
  finally show ?case .
qed

lemma sigints_prompts: "prompts (run (replicate n Sigint) s) = prompts s"
proof (induction n arbitrary: s)
  case 0
  show ?case by simp
next
  case (Suc n)
  have "prompts (run (replicate (Suc n) Sigint) s)
          = prompts (run (replicate n Sigint) (step Sigint s))"
    by simp
  also have "\<dots> = prompts (step Sigint s)"
    by (rule Suc.IH)
  also have "\<dots> = prompts s"
    by (simp add: prompts_def require_input_def term_io_def)
  finally show ?case .
qed

lemma control_latch: "input_required (control s) = input_required s"
  by (simp add: control_def)

text \<open>
  Claim C5. \<open>set()\<close> is idempotent: any number \<open>Suc n\<close> of interrupts in a row leaves the
  same state as one, up to the logs, with the event set. And after any schedule \<open>pre\<close>
  followed by any number \<open>n\<close> of interrupts, a continuation \<open>ls\<close> without a further
  interrupt contains at most one prompt: the one of the cycle in progress or one more,
  never one per interrupt.
\<close>

theorem C5_at_most_one_pending_prompt:
  assumes "Sigint \<notin> set ls"
  shows "prompts (run (pre @ replicate n Sigint @ ls) init) \<le> Suc (prompts (run pre init))
       \<and> control (run (replicate (Suc n) Sigint) s) = control (step Sigint s)
       \<and> input_required (run (replicate (Suc n) Sigint) s)"
proof -
  define a where "a = run (replicate n Sigint) (run pre init)"
  have inv: "closed_inv a"
    unfolding a_def by (intro closed_inv_run closed_inv_init)
  have "prompts (run ls a) + pending (run ls a) \<le> prompts a + pending a"
    by (rule pending_run[OF inv assms])
  moreover have "prompts a = prompts (run pre init)"
    unfolding a_def by (rule sigints_prompts)
  ultimately have "prompts (run ls a) \<le> Suc (prompts (run pre init))"
    using pending_le[of a] by simp
  moreover have "input_required (run (replicate (Suc n) Sigint) s)"
    using control_latch[of "run (replicate (Suc n) Sigint) s"] sigints_control[of n s]
      control_latch[of "step Sigint s"]
    by (simp add: require_input_def term_io_def)
  ultimately show ?thesis
    using sigints_control[of n s] by (simp add: run_append a_def)
qed

theorem C5_at_most_one_pending_prompt_witness:
  "Sigint \<notin> set [Sender, Sender, Sender, Typed ''a'', Sender, Sender, Sender, Sender, Sender, Sender, Typed ''b'']
   \<and> prompts (run [Sender] init) = 0
   \<and> prompts (run ([Sender] @ replicate (Suc (Suc (Suc 0))) Sigint @
        [Sender, Sender, Sender, Typed ''a'', Sender, Sender, Sender, Sender, Sender, Sender, Typed ''b''])
        init) = 1
   \<and> input_required (run (replicate (Suc (Suc (Suc (Suc 0)))) Sigint) init)"
proof -
  have h: "Sigint \<notin> set [Sender, Sender, Sender, Typed ''a'', Sender, Sender, Sender, Sender, Sender, Sender, Typed ''b'']"
    by simp
  have v: "prompts (run [Sender] init) = 0"
    "prompts (run ([Sender] @ replicate (Suc (Suc (Suc 0))) Sigint @
        [Sender, Sender, Sender, Typed ''a'', Sender, Sender, Sender, Sender, Sender, Sender, Typed ''b''])
        init) = 1"
    by (simp_all add: prompts_def init_def step_defs)
  from C5_at_most_one_pending_prompt[where pre="[Sender]" and n="Suc (Suc (Suc 0))"
      and s=init and ls="[Sender, Sender, Sender, Typed ''a'', Sender, Sender, Sender, Sender, Sender, Sender, Typed ''b'']"]
    h v
  show ?thesis by simp
qed

section \<open>Scenarios\<close>

lemma keeps_open_step: "conn_open s \<Longrightarrow> keeps_open l \<Longrightarrow> conn_open (step l s)"
  by (cases l; cases "sender s"; cases "receiver s")
     (auto simp: step_defs split: option.splits list.splits if_splits)

lemma keeps_open_run:
  "conn_open s \<Longrightarrow> list_all keeps_open e \<Longrightarrow> conn_open (run e s)"
  by (induction e arbitrary: s) (simp_all add: keeps_open_step)

lemma s_typed:
  assumes "sender s = S_input"
  shows "sender_view (step (Typed m) s) =
           (S_unlock m, by_actor SenderTask (terminal s) @ [ReadLine ''Send: '' m],
            sent s, iterations s)
         \<and> conn_open (step (Typed m) s) = conn_open s"
  using assms by (simp add: sender_view_def step_defs by_actor_append by_actor_single)

lemma s_unlock:
  assumes "sender s = S_unlock m"
  shows "sender_view (step Sender s) =
           (S_send m, by_actor SenderTask (terminal s), sent s, iterations s)
         \<and> conn_open (step Sender s) = conn_open s"
  using assms by (simp add: sender_view_def step_defs)

lemma s_send_open:
  assumes "sender s = S_send m" "conn_open s"
  shows "sender_view (step Sender s) =
           (S_clear, by_actor SenderTask (terminal s), sent s @ [m], iterations s)"
  using assms by (simp add: sender_view_def step_defs)

text \<open>
  Claim C7. After the interrupt the sender reaches the prompt on the open connection
  (the last four conjuncts). When the operator then types a line \<open>m\<close>, such as \<open>ping\<close>,
  at the prompt and the channel stays open until the send, then, whatever the other
  actors do in between, the sender's next three statements release the lock, push \<open>m\<close>
  once and clear the event: the iteration ends with \<open>m\<close> appended once to the messages
  sent and the event inactive.
\<close>

theorem C7_interrupt_then_ping:
  assumes pc: "sender s = S_input"
    and opn: "conn_open s"
    and idle: "list_all sender_idle e1" "list_all sender_idle e2" "list_all sender_idle e3"
    and stay: "list_all keeps_open e1" "list_all keeps_open e2"
  shows "sender_view (run (Typed m # e1 @ [Sender] @ e2 @ [Sender] @ e3 @ [Sender]) s) =
           (S_while, by_actor SenderTask (terminal s) @ [ReadLine ''Send: '' m],
            sent s @ [m], iterations s)
       \<and> \<not> input_required (run (Typed m # e1 @ [Sender] @ e2 @ [Sender] @ e3 @ [Sender]) s)
       \<and> sender (run [Sigint, Sender, Sender, Sender, Sender] init) = S_input
       \<and> conn_open (run [Sigint, Sender, Sender, Sender, Sender] init)
       \<and> sent (run [Sigint, Sender, Sender, Sender, Sender] init) = []
       \<and> input_required (run [Sigint, Sender, Sender, Sender, Sender] init)"
proof -
  define t0 where "t0 = step (Typed m) s"
  define a0 where "a0 = run e1 t0"
  define a1 where "a1 = step Sender a0"
  define b0 where "b0 = run e2 a1"
  define b1 where "b1 = step Sender b0"
  define c0 where "c0 = run e3 b1"
  define c1 where "c1 = step Sender c0"
  have t0: "sender_view t0 = (S_unlock m, by_actor SenderTask (terminal s) @ [ReadLine ''Send: '' m],
            sent s, iterations s)" "conn_open t0"
    using s_typed[OF pc, of m] opn by (simp_all add: t0_def)
  have a0: "sender_view a0 = sender_view t0" "conn_open a0"
    using sender_idle_run[OF idle(1), of t0] keeps_open_run[OF t0(2) stay(1)]
    by (simp_all add: a0_def)
  have a1: "sender_view a1 = (S_send m, by_actor SenderTask (terminal s) @ [ReadLine ''Send: '' m],
            sent s, iterations s)" "conn_open a1"
    using s_unlock[of a0 m] a0 t0(1) by (simp_all add: a1_def sender_view_def)
  have b0: "sender_view b0 = sender_view a1" "conn_open b0"
    using sender_idle_run[OF idle(2), of a1] keeps_open_run[OF a1(2) stay(2)]
    by (simp_all add: b0_def)
  have b1: "sender_view b1 = (S_clear, by_actor SenderTask (terminal s) @ [ReadLine ''Send: '' m],
            sent s @ [m], iterations s)"
    using s_send_open[of b0 m] b0 a1(1) by (simp_all add: b1_def sender_view_def)
  have c0: "sender_view c0 = sender_view b1"
    using sender_idle_run[OF idle(3), of b1] by (simp add: c0_def)
  have c1: "sender_view c1 = (S_while, by_actor SenderTask (terminal s) @ [ReadLine ''Send: '' m],
            sent s @ [m], iterations s)" "\<not> input_required c1"
    using s_clear[of c0] c0 b1 by (simp_all add: c1_def sender_view_def)
  have runs: "run (Typed m # e1 @ [Sender] @ e2 @ [Sender] @ e3 @ [Sender]) s = c1"
    by (simp add: run_append t0_def a0_def a1_def b0_def b1_def c0_def c1_def)
  have conc: "sender (run [Sigint, Sender, Sender, Sender, Sender] init) = S_input
       \<and> conn_open (run [Sigint, Sender, Sender, Sender, Sender] init)
       \<and> sent (run [Sigint, Sender, Sender, Sender, Sender] init) = []
       \<and> input_required (run [Sigint, Sender, Sender, Sender, Sender] init)"
    by (simp add: init_def step_defs)
  show ?thesis unfolding runs using c1 conc by simp
qed

theorem C7_interrupt_then_ping_witness:
  "sender (run [Sigint, Sender, Sender, Sender, Sender] init) = S_input
   \<and> conn_open (run [Sigint, Sender, Sender, Sender, Sender] init)
   \<and> list_all sender_idle [Deliver ''hello'', Receiver] \<and> list_all sender_idle [Sigint]
   \<and> list_all keeps_open [Deliver ''hello'', Receiver] \<and> list_all keeps_open [Sigint]
   \<and> sent (run (Typed ''ping'' # [Deliver ''hello'', Receiver] @ [Sender] @ [Sigint] @ [Sender] @ [] @ [Sender])
        (run [Sigint, Sender, Sender, Sender, Sender] init)) = [''ping'']
   \<and> \<not> input_required (run (Typed ''ping'' # [Deliver ''hello'', Receiver] @ [Sender] @ [Sigint] @ [Sender] @ [] @ [Sender])
        (run [Sigint, Sender, Sender, Sender, Sender] init))"
proof -
  have h: "sender (run [Sigint, Sender, Sender, Sender, Sender] init) = S_input"
    "conn_open (run [Sigint, Sender, Sender, Sender, Sender] init)"
    "sent (run [Sigint, Sender, Sender, Sender, Sender] init) = []"
    by (simp_all add: init_def step_defs)
  have i: "list_all sender_idle [Deliver ''hello'', Receiver]" "list_all sender_idle [Sigint]"
    "list_all sender_idle []"
    "list_all keeps_open [Deliver ''hello'', Receiver]" "list_all keeps_open [Sigint]"
    by simp_all
  from C7_interrupt_then_ping[OF h(1) h(2) i(1) i(2) i(3) i(4) i(5), of "''ping''"] h i
  show ?thesis by (simp add: sender_view_def)
qed



end
